theory Spec2Isabelle
  imports Main "HOL-Library.Sublist"
begin

section \<open>The session\_consult patch script (add\_session\_tool\_simple.py)\<close>

text \<open>
  The script patches the Elixir module of every agent listed in \<open>AGENTS\<close>: it reads
  \<open>apps/<agent>/lib/<agent>.ex\<close>, inserts a tool definition, a handler and a helper by
  regular-expression substitution, writes the file, runs \<open>mix compile\<close> and restores the
  file from a backup when the compilation does not report success.

  Texts are \<^typ>\<open>string\<close>s, one \<^typ>\<open>char\<close> for each code point below 256. A file is
  modelled by the text that Python's \<open>read()\<close> returns and \<open>write()\<close> takes (the files are
  opened in text mode; decoding and the translation of line ends are not part of the
  model); the file system is a map from path names to such texts. Errors of the operating
  system other than a missing file (permissions, a full disk, a missing \<open>mix\<close>) are not
  modelled.
\<close>

subsection \<open>Strings: whitespace, \<open>rstrip\<close>, \<open>in\<close>, \<open>upper\<close>\<close>

text \<open>
  \<open>str.isspace\<close>, which is also the class \<open>\s\<close> of \<open>re\<close> on \<open>str\<close> patterns and the set
  that \<open>str.rstrip()\<close> removes: the code points 9-13, 28-31, 32, 0x85 and 0xA0 (below 256).
\<close>

definition isspace :: "char \<Rightarrow> bool" where
  "isspace c \<longleftrightarrow> c \<in> set [CHR 0x09, CHR 0x0A, CHR 0x0B, CHR 0x0C, CHR 0x0D,
     CHR 0x1C, CHR 0x1D, CHR 0x1E, CHR 0x1F, CHR 0x20, CHR 0x85, CHR 0xA0]"

definition rstrip :: "string \<Rightarrow> string" where
  "rstrip s = rev (dropWhile isspace (rev s))"

text \<open>\<open>sub in s\<close> on strings: \<open>sub\<close> occurs in \<open>s\<close> as a contiguous block.\<close>

fun py_in :: "string \<Rightarrow> string \<Rightarrow> bool" where
  "py_in sub [] = (sub = [])"
| "py_in sub (c # cs) = (prefix sub (c # cs) \<or> py_in sub cs)"

text \<open>\<open>str.upper\<close> on the ASCII letters (the agent names of \<open>AGENTS\<close> are ASCII).\<close>

definition upper_char :: "char \<Rightarrow> char" where
  "upper_char c = (let n = (of_char c :: nat) in
     if 97 \<le> n \<and> n \<le> 122 then char_of (n - 32) else c)"

definition upper :: "string \<Rightarrow> string" where
  "upper s = map upper_char s"

subsection \<open>The regular expressions of the script\<close>

text \<open>
  Both patterns of the script are sequences of \<open>\s+\<close> and literal text, so a pattern is a
  list of such items. \<open>match_here p s\<close> matches \<open>p\<close> at the beginning of \<open>s\<close> the way the
  backtracking matcher of \<open>re\<close> does: \<open>\s+\<close> is greedy, it first takes the whole run of
  whitespace and gives characters back one at a time, down to one character, until the
  rest of the pattern matches. The result lists the text matched by each item.
\<close>

datatype rx = Spaces | Lit string

fun first_some :: "('a \<Rightarrow> 'b option) \<Rightarrow> 'a list \<Rightarrow> 'b option" where
  "first_some f [] = None"
| "first_some f (x # xs) = (case f x of Some y \<Rightarrow> Some y | None \<Rightarrow> first_some f xs)"

primrec match_here :: "rx list \<Rightarrow> string \<Rightarrow> string list option" where
  "match_here [] s = Some []"
| "match_here (r # rs) s =
     (case r of
        Lit l \<Rightarrow>
          (if prefix l s then map_option ((#) l) (match_here rs (drop (length l) s))
           else None)
      | Spaces \<Rightarrow>
          first_some (\<lambda>k. map_option ((#) (take k s)) (match_here rs (drop k s)))
            (rev [1 ..< Suc (length (takeWhile isspace s))]))"

text \<open>\<open>re.search(p, s)\<close> finds a match iff the pattern matches at some position of \<open>s\<close>.\<close>

fun re_search :: "rx list \<Rightarrow> string \<Rightarrow> bool" where
  "re_search p [] = (match_here p [] \<noteq> None)"
| "re_search p (c # cs) = (match_here p (c # cs) \<noteq> None \<or> re_search p cs)"

text \<open>
  \<open>re.sub(p, repl, s)\<close> scans \<open>s\<close> from the left and replaces every non-overlapping match;
  \<open>repl\<close> builds the replacement from the texts matched by the items. A character where
  no match starts is copied. (An empty match is replaced and the scan moves on by one
  character; the patterns of the script begin with \<open>\s+\<close> and never match the empty text.)
\<close>

fun re_sub :: "rx list \<Rightarrow> (string list \<Rightarrow> string) \<Rightarrow> string \<Rightarrow> string" where
  "re_sub p repl [] = (case match_here p [] of None \<Rightarrow> [] | Some gs \<Rightarrow> repl gs)"
| "re_sub p repl (c # cs) =
     (case match_here p (c # cs) of
        None \<Rightarrow> c # re_sub p repl cs
      | Some gs \<Rightarrow>
          (if concat gs = [] then repl gs @ c # re_sub p repl cs
           else repl gs @ re_sub p repl (drop (length (concat gs) - 1) cs)))"

text \<open>
  \<open>tool_pattern = r'(\s+})\s+(\]\s+end\s+@impl true\s+def execute_tool)'\<close>: group 1 is
  the text of the first two items, group 2 the text of the items from the fourth on.
\<close>

definition tool_pattern :: "rx list" where
  "tool_pattern = [Spaces, Lit ''}'', Spaces, Lit '']'', Spaces, Lit ''end'', Spaces,
     Lit ''@impl true'', Spaces, Lit ''def execute_tool'']"

text \<open>
  \<open>catchall_pattern = r'(\s+def execute_tool\(name, _args\) do)'\<close>: group 1 is the whole
  match.
\<close>

definition catchall_pattern :: "rx list" where
  "catchall_pattern = [Spaces, Lit ''def execute_tool(name, _args) do'']"

subsection \<open>The inserted fragments\<close>

definition TOOL_DEF_TEMPLATE :: string where
  \<open>TOOL_DEF_TEMPLATE = concat
    [''      },\<newline>'',
     ''      %{\<newline>'',
     ''        name: "session_consult",\<newline>'',
     ''        description: """\<newline>'',
     ''        Query the AI assistant with conversation memory (LocalCode-style).\<newline>'',
     ''\<newline>'',
     ''        Maintains multi-turn conversations with automatic context injection:\<newline>'',
     ''        - Your role, responsibilities, and authority limits\<newline>'',
     ''        - Recent decisions and messages (last 5 each)\<newline>'',
     ''        - Current system status (PostgreSQL, Redis, Ollama)\<newline>'',
     ''        - Git context (branch, last commit)\<newline>'',
     ''        - Conversation history (last 5 turns)\<newline>'',
     ''\<newline>'',
     ''        Perfect for exploratory questions, decision analysis with iterative thinking,\<newline>'',
     ''        and strategy planning with follow-up questions.\<newline>'',
     ''        """,\<newline>'',
     ''        inputSchema: %{\<newline>'',
     ''          type: "object",\<newline>'',
     ''          properties: %{\<newline>'',
     ''            question: %{\<newline>'',
     ''              type: "string",\<newline>'',
     ''              description: "The question to ask the AI assistant",\<newline>'',
     ''              minLength: 1\<newline>'',
     ''            },\<newline>'',
     ''            session_id: %{\<newline>'',
     ''              type: "string",\<newline>'',
     ''              description: "Session ID to continue conversation (optional, omit for new session)"\<newline>'',
     ''            },\<newline>'',
     ''            context: %{\<newline>'',
     ''              type: "string",\<newline>'',
     ''              description: "Additional context for this specific query (optional)"\<newline>'',
     ''            }\<newline>'',
     ''          },\<newline>'',
     ''          required: ["question"]\<newline>'',
     ''        }\<newline>'',
     ''      }'']\<close>

text \<open>
  The replacement template of step 1 is \<open>rf'\1,{TOOL_DEF_TEMPLATE}\n    \2'\<close>: group 1, a
  comma, the tool definition, a newline and four blanks, group 2. The whitespace between the
  two groups is dropped.
\<close>

definition tool_repl :: "string list \<Rightarrow> string" where
  "tool_repl gs =
     concat (take 2 gs) @ '','' @ TOOL_DEF_TEMPLATE @ ''\<newline>    '' @ concat (drop 3 gs)"

definition handler_code :: "string \<Rightarrow> string \<Rightarrow> string" where
  \<open>handler_code agent_dir role = concat
    [''\<newline>'',
     ''  def execute_tool("session_consult", args) do\<newline>'',
     ''    question = Map.fetch!(args, "question")\<newline>'',
     ''    session_id = Map.get(args, "session_id")\<newline>'',
     ''    context = Map.get(args, "context")\<newline>'',
     ''\<newline>'',
     ''    opts = if context, do: [context: context], else: []\<newline>'',
     ''\<newline>'',
     ''    case DecisionHelper.consult_session(:'', role, '', session_id, question, opts) do\<newline>'',
     ''      {:ok, result} ->\<newline>'',
     ''        response = format_session_response(result)\<newline>'',
     ''        {:ok, response}\<newline>'',
     ''\<newline>'',
     ''      {:error, :llm_disabled} ->\<newline>'',
     ''        {:error, "LLM is disabled for '', agent_dir,
       ''. Enable with LLM_ENABLED=true or '', upper agent_dir, ''_LLM_ENABLED=true"}\<newline>'',
     ''\<newline>'',
     ''      {:error, :session_not_found} ->\<newline>'',
     ''        {:error, "Session not found: #{session_id}. It may have expired after 1 hour of inactivity."}\<newline>'',
     ''\<newline>'',
     ''      {:error, reason} ->\<newline>'',
     ''        {:error, "AI consultation failed: #{inspect(reason)}"}\<newline>'',
     ''    end\<newline>'',
     ''  end\<newline>'']\<close>

text \<open>
  The replacement template of step 2 is \<open>rf'{handler_code}\1'\<close>: the handler, then the
  matched text. (The fragments contain no backslash when \<open>agent_dir\<close> and \<open>role\<close> contain
  none, as the names of \<open>AGENTS\<close> do; the only escapes of the templates are then the group
  references and the \<open>\n\<close> of step 1.)
\<close>

definition handler_repl :: "string \<Rightarrow> string \<Rightarrow> string list \<Rightarrow> string" where
  "handler_repl agent_dir role gs = handler_code agent_dir role @ concat gs"

definition helper_code :: "string \<Rightarrow> string \<Rightarrow> string" where
  \<open>helper_code agent_dir role = concat
    [''\<newline>'',
     ''  defp format_session_response(result) do\<newline>'',
     ''    model = EchoShared.LLM.Config.get_model(:'', role, '')\<newline>'',
     ''\<newline>'',
     ''    base = %{\<newline>'',
     ''      "response" => result.response,\<newline>'',
     ''      "session_id" => result.session_id,\<newline>'',
     ''      "turn_count" => result.turn_count,\<newline>'',
     ''      "estimated_tokens" => result.total_tokens,\<newline>'',
     ''      "model" => model,\<newline>'',
     ''      "agent" => "'', agent_dir, ''"\<newline>'',
     ''    }\<newline>'',
     ''\<newline>'',
     ''    if result.warnings != [] do\<newline>'',
     ''      Map.put(base, "warnings", result.warnings)\<newline>'',
     ''    else\<newline>'',
     ''      base\<newline>'',
     ''    end\<newline>'',
     ''  end\<newline>'']\<close>

text \<open>The three edits of the script, on the text in memory.\<close>

definition patch :: "string \<Rightarrow> string \<Rightarrow> string \<Rightarrow> string" where
  "patch agent_dir role content =
     (let content1 = re_sub tool_pattern tool_repl content;
          content2 = re_sub catchall_pattern (handler_repl agent_dir role) content1
      in rstrip content2 @ helper_code agent_dir role @ ''\<newline>end\<newline>'')"

subsection \<open>Files, the build command and the printed lines\<close>

text \<open>
  The lines that the script prints, by what they say. \<open>CompilationFailed\<close> stands for the two
  lines printed when the build did not succeed; its second argument is \<open>result.stderr[:200]\<close>.
  \<open>Rule\<close>, \<open>Title\<close> and \<open>Blank\<close> are the lines of the banner and the empty lines of \<open>main\<close>.
\<close>

datatype msg =
    FileNotFound string
  | AlreadyHas string
  | NoToolsListEnd string
  | Success string
  | CompilationFailed string string
  | Processing string string
  | Completed nat nat
  | Rule
  | Title
  | Blank

text \<open>
  What the script does to the outside, in the order in which it does it: printing a line,
  writing a file, removing a file and running \<open>mix compile\<close> in a directory.
\<close>

datatype event =
    Print msg
  | Write string string
  | Remove string
  | Run string

record completed =
  returncode :: int
  stdout :: string
  stderr :: string

text \<open>The state outside the script: the files, and the record of what has been done so far.\<close>

record world =
  files :: "string \<rightharpoonup> string"
  trace :: "event list"

text \<open>
  \<open>subprocess.run(['mix', 'compile'], cwd=...)\<close> is outside the script: its result is
  given by a function of the working directory and of the files it finds. It changes none
  of the files.
\<close>

type_synonym verifier = "string \<Rightarrow> (string \<rightharpoonup> string) \<Rightarrow> completed"

datatype py_error = FileNotFoundError | PermissionError | UnicodeDecodeError

definition emit :: "event \<Rightarrow> world \<Rightarrow> world" where
  "emit e w = w\<lparr>trace := trace w @ [e]\<rparr>"

definition write_file :: "string \<Rightarrow> string \<Rightarrow> world \<Rightarrow> world" where
  "write_file path text w = emit (Write path text) (w\<lparr>files := (files w)(path \<mapsto> text)\<rparr>)"

definition remove_file :: "string \<Rightarrow> world \<Rightarrow> world" where
  "remove_file path w = emit (Remove path) (w\<lparr>files := (files w)(path := None)\<rparr>)"

definition file_path_of :: "string \<Rightarrow> string" where
  "file_path_of agent_dir = ''apps/'' @ agent_dir @ ''/lib/'' @ agent_dir @ ''.ex''"

definition backup_of :: "string \<Rightarrow> string" where
  "backup_of file_path = file_path @ ''.backup''"

definition cwd_of :: "string \<Rightarrow> string" where
  "cwd_of agent_dir = ''apps/'' @ agent_dir"

text \<open>The test of line 159: \<open>result.returncode == 0 and 'Generated' in result.stdout\<close>.\<close>

definition compiled :: "completed \<Rightarrow> bool" where
  "compiled result \<longleftrightarrow> returncode result = 0 \<and> py_in ''Generated'' (stdout result)"

subsection \<open>\<open>add_session_consult\<close>\<close>

text \<open>
  The function returns \<open>True\<close> or \<open>False\<close>; opening or removing a file that does not exist
  raises \<open>FileNotFoundError\<close>.
\<close>

definition add_session_consult ::
  "verifier \<Rightarrow> string \<Rightarrow> string \<Rightarrow> world \<Rightarrow> (py_error + bool) \<times> world" where
  \<open>add_session_consult mix agent_dir role w =
     (let file_path = file_path_of agent_dir in
      case files w file_path of
        None \<Rightarrow> (Inr False, emit (Print (FileNotFound agent_dir)) w)
      | Some content \<Rightarrow>
          if py_in ''"session_consult"'' content
          then (Inr True, emit (Print (AlreadyHas agent_dir)) w)
          else
            let w1 = write_file (backup_of file_path) content w in
            if \<not> re_search tool_pattern content
            then (Inr False, emit (Print (NoToolsListEnd agent_dir)) w1)
            else
              let w2 = write_file file_path (patch agent_dir role content) w1;
                  result = mix (cwd_of agent_dir) (files w2);
                  w3 = emit (Run (cwd_of agent_dir)) w2
              in
                if compiled result
                then
                  (let w4 = emit (Print (Success agent_dir)) w3 in
                   case files w4 (backup_of file_path) of
                     None \<Rightarrow> (Inl FileNotFoundError, w4)
                   | Some _ \<Rightarrow> (Inr True, remove_file (backup_of file_path) w4))
                else
                  (let w4 = emit (Print (CompilationFailed agent_dir (take 200 (stderr result)))) w3
                   in
                   case files w4 (backup_of file_path) of
                     None \<Rightarrow> (Inl FileNotFoundError, w4)
                   | Some saved \<Rightarrow> (Inr False, write_file file_path saved w4)))\<close>

subsection \<open>\<open>main\<close>\<close>

definition AGENTS :: "(string \<times> string) list" where
  "AGENTS =
    [(''cto'', ''cto''),
     (''chro'', ''chro''),
     (''operations_head'', ''operations_head''),
     (''product_manager'', ''product_manager''),
     (''senior_architect'', ''senior_architect''),
     (''uiux_engineer'', ''uiux_engineer''),
     (''senior_developer'', ''senior_developer''),
     (''test_lead'', ''test_lead'')]"

text \<open>
  The loop of \<open>main\<close> over the items of the table, with the counter \<open>success_count\<close>. An
  exception of \<open>add_session_consult\<close> is not caught and ends the run.
\<close>

fun main_loop ::
  "verifier \<Rightarrow> (string \<times> string) list \<Rightarrow> nat \<Rightarrow> world \<Rightarrow> (py_error + nat) \<times> world" where
  "main_loop mix [] success_count w = (Inr success_count, w)"
| "main_loop mix ((agent_dir, role) # rest) success_count w =
     (case add_session_consult mix agent_dir role (emit (Print (Processing agent_dir role)) w) of
        (Inl e, w') \<Rightarrow> (Inl e, w')
      | (Inr ok, w') \<Rightarrow>
          main_loop mix rest (if ok then success_count + 1 else success_count)
            (emit (Print Blank) w'))"

definition main_on :: "(string \<times> string) list \<Rightarrow> verifier \<Rightarrow> world \<Rightarrow> (py_error + unit) \<times> world" where
  "main_on agents mix w =
     (let w0 = emit (Print Blank) (emit (Print Rule) (emit (Print Title) (emit (Print Rule) w))) in
      case main_loop mix agents 0 w0 of
        (Inl e, w') \<Rightarrow> (Inl e, w')
      | (Inr success_count, w') \<Rightarrow>
          (Inr (),
           emit (Print Rule)
             (emit (Print (Completed success_count (length agents))) (emit (Print Rule) w'))))"

definition main :: "verifier \<Rightarrow> world \<Rightarrow> (py_error + unit) \<times> world" where
  "main = main_on AGENTS"

subsection \<open>What a run of \<open>main\<close> shows\<close>

text \<open>
  The values that \<open>add_session_consult\<close> returns to the loop of \<open>main\<close>, target by target
  (up to an exception, which ends the loop).
\<close>

fun outcomes :: "verifier \<Rightarrow> (string \<times> string) list \<Rightarrow> world \<Rightarrow> bool list" where
  "outcomes mix [] w = []"
| "outcomes mix ((agent_dir, role) # rest) w =
     (case add_session_consult mix agent_dir role (emit (Print (Processing agent_dir role)) w) of
        (Inl e, w') \<Rightarrow> []
      | (Inr ok, w') \<Rightarrow> ok # outcomes mix rest (emit (Print Blank) w'))"

text \<open>The targets announced by the lines \<open>Processing ...\<close> of a trace, in order.\<close>

fun processed :: "event list \<Rightarrow> (string \<times> string) list" where
  "processed [] = []"
| "processed (Print (Processing agent_dir role) # es) = (agent_dir, role) # processed es"
| "processed (e # es) = processed es"

subsection \<open>Sample inputs\<close>

text \<open>A small agent module with both anchors, and build commands with fixed answers.\<close>

definition sample_module :: string where
  \<open>sample_module = concat
    [''defmodule Cto do\<newline>'',
     ''  def tools do\<newline>'',
     ''    [\<newline>'',
     ''      %{name: "ping"\<newline>'',
     ''      }\<newline>'',
     ''    ]\<newline>'',
     ''  end\<newline>'',
     ''\<newline>'',
     ''  @impl true\<newline>'',
     ''  def execute_tool("ping", _args) do\<newline>'',
     ''    :pong\<newline>'',
     ''  end\<newline>'',
     ''\<newline>'',
     ''  def execute_tool(name, _args) do\<newline>'',
     ''    {:error, name}\<newline>'',
     ''  end\<newline>'',
     ''end\<newline>'']\<close>

definition sample_world :: world where
  "sample_world = \<lparr>files = [''apps/cto/lib/cto.ex'' \<mapsto> sample_module], trace = []\<rparr>"

definition mix_generated :: verifier where
  "mix_generated cwd fs = \<lparr>returncode = 0, stdout = ''Generated cto app'', stderr = []\<rparr>"

definition mix_silent :: verifier where
  "mix_silent cwd fs = \<lparr>returncode = 0, stdout = [], stderr = []\<rparr>"

definition module_without_list :: string where
  \<open>module_without_list = concat
    [''defmodule Cto do\<newline>'',
     ''  def execute_tool(name, _args) do\<newline>'',
     ''    {:error, name}\<newline>'',
     ''  end\<newline>'',
     ''end\<newline>'']\<close>

definition listless_world :: world where
  "listless_world = \<lparr>files = [''apps/cto/lib/cto.ex'' \<mapsto> module_without_list], trace = []\<rparr>"

definition module_without_catchall :: string where
  \<open>module_without_catchall = concat
    [''defmodule Cto do\<newline>'',
     ''  def tools do\<newline>'',
     ''    [\<newline>'',
     ''      %{name: "ping"\<newline>'',
     ''      }\<newline>'',
     ''    ]\<newline>'',
     ''  end\<newline>'',
     ''\<newline>'',
     ''  @impl true\<newline>'',
     ''  def execute_tool("ping", _args) do\<newline>'',
     ''    :pong\<newline>'',
     ''  end\<newline>'',
     ''\<newline>'',
     ''  def execute_tool(other, _args) do\<newline>'',
     ''    {:error, other}\<newline>'',
     ''  end\<newline>'',
     ''end\<newline>'']\<close>

definition headless_world :: world where
  "headless_world =
     \<lparr>files = [''apps/cto/lib/cto.ex'' \<mapsto> module_without_catchall], trace = []\<rparr>"

definition three_agents :: "(string \<times> string) list" where
  "three_agents = [(''cto'', ''cto''), (''chro'', ''chro''), (''test_lead'', ''test_lead'')]"

definition three_world :: world where
  "three_world =
     \<lparr>files = [''apps/cto/lib/cto.ex'' \<mapsto> sample_module,
               ''apps/chro/lib/chro.ex'' \<mapsto> sample_module,
               ''apps/test_lead/lib/test_lead.ex'' \<mapsto> sample_module],
      trace = []\<rparr>"

definition mix_chro_broken :: verifier where
  "mix_chro_broken cwd fs =
     (if cwd = ''apps/chro''
      then \<lparr>returncode = 1, stdout = [], stderr = ''** (CompileError) lib/chro.ex''\<rparr>
      else \<lparr>returncode = 0, stdout = ''Generated app'', stderr = []\<rparr>)"

definition module_two_lists :: string where
  \<open>module_two_lists = concat
    [''defmodule Cto do\<newline>'',
     ''  def tools do\<newline>'',
     ''    [%{name: "a"\<newline>'',
     ''      }\<newline>'',
     ''    ]\<newline>'',
     ''  end\<newline>'',
     ''  @impl true\<newline>'',
     ''  def execute_tool("a", _args) do\<newline>'',
     ''    [%{name: "b"\<newline>'',
     ''      }\<newline>'',
     ''    ]\<newline>'',
     ''  end\<newline>'',
     ''  @impl true\<newline>'',
     ''  def execute_tool(name, _args) do\<newline>'',
     ''    :none\<newline>'',
     ''  end\<newline>'',
     ''end\<newline>'']\<close>

definition two_lists_world :: world where
  "two_lists_world = \<lparr>files = [''apps/cto/lib/cto.ex'' \<mapsto> module_two_lists], trace = []\<rparr>"

definition empty_world :: world where
  "empty_world = \<lparr>files = Map.empty, trace = []\<rparr>"

section \<open>Properties\<close>

subsection \<open>Strings and matching\<close>

lemma py_in_sublist: "py_in sub s \<longleftrightarrow> sublist sub s"
  by (induction s) (auto simp: sublist_Cons_right)

lemma sublist_trans_append:
  "sublist m x \<Longrightarrow> sublist m (a @ x @ b)"
  by (auto simp: sublist_def) (metis append.assoc)

lemma rstrip_after_nonspace:
  "\<not> isspace y \<Longrightarrow> rstrip (xs @ y # q) = xs @ y # rstrip q"
  by (simp add: rstrip_def dropWhile_append3)

lemma sublist_rstrip:
  assumes "sublist (m @ [y]) s" "\<not> isspace y"
  shows "sublist (m @ [y]) (rstrip s)"
proof -
  from assms(1) obtain p q where "s = p @ (m @ [y]) @ q"
    by (auto simp: sublist_def)
  then have "s = (p @ m) @ y # q" by simp
  then have "rstrip s = (p @ m) @ y # rstrip q"
    using rstrip_after_nonspace [OF assms(2), of "p @ m" q] by simp
  then have "rstrip s = p @ (m @ [y]) @ rstrip q" by simp
  then show ?thesis unfolding sublist_def by blast
qed

text \<open>
  Where \<open>\s+\<close> is followed by a literal that begins with a character other than whitespace,
  as everywhere in the two patterns of the script, giving characters back never helps:
  the match takes the whole run of whitespace or fails (\<open>match_spaces_lit\<close>).
\<close>

lemma first_some_None: "(\<And>x. x \<in> set xs \<Longrightarrow> f x = None) \<Longrightarrow> first_some f xs = None"
  by (induction xs) auto

lemma first_some_SomeD: "first_some f xs = Some y \<Longrightarrow> \<exists>x \<in> set xs. f x = Some y"
  by (induction xs) (auto split: option.splits)

lemma first_some_greedy:
  assumes "\<And>k. 1 \<le> k \<Longrightarrow> k < n \<Longrightarrow> f k = None"
  shows "first_some f (rev [1 ..< Suc n]) = (if n = 0 then None else f n)"
proof (cases n)
  case 0
  then show ?thesis by simp
next
  case (Suc m)
  have none: "first_some f (rev [1 ..< n]) = None"
    using assms by (intro first_some_None) auto
  have "rev [1 ..< Suc n] = n # rev [1 ..< n]"
    using Suc by simp
  then show ?thesis using none Suc by (simp del: upt_Suc split: option.splits)
qed

lemma drop_in_run:
  assumes "k < length (takeWhile P s)"
  shows "\<exists>x xs. drop k s = x # xs \<and> P x"
proof -
  have k: "k < length s" using assms length_takeWhile_le [of P s] by simp
  have "P (s ! k)" using assms
    by (metis nth_mem set_takeWhileD takeWhile_nth)
  moreover have "drop k s = s ! k # drop (Suc k) s"
    using k by (simp add: Cons_nth_drop_Suc)
  ultimately show ?thesis by blast
qed

lemma match_spaces_lit:
  assumes "\<not> isspace c"
  shows "match_here (Spaces # Lit (c # l) # rs) s =
     (if takeWhile isspace s = [] then None
      else map_option ((#) (takeWhile isspace s))
             (match_here (Lit (c # l) # rs) (dropWhile isspace s)))"
proof -
  let ?n = "length (takeWhile isspace s)"
  let ?f = "\<lambda>k. map_option ((#) (take k s)) (match_here (Lit (c # l) # rs) (drop k s))"
  have "?f k = None" if kn: "k < ?n" for k
  proof -
    obtain x xs where "drop k s = x # xs" "isspace x"
      using drop_in_run [OF kn] by blast
    with assms show ?thesis by auto
  qed
  then have "first_some ?f (rev [1 ..< Suc ?n]) = (if ?n = 0 then None else ?f ?n)"
    by (intro first_some_greedy) simp
  moreover have "take ?n s = takeWhile isspace s" "drop ?n s = dropWhile isspace s"
    by (simp_all add: takeWhile_eq_take [symmetric] dropWhile_eq_drop [symmetric])
  ultimately show ?thesis by simp
qed

lemma match_spaces_nonempty:
  assumes "match_here (Spaces # rs) s = Some gs"
  shows "concat gs \<noteq> []"
proof -
  let ?f = "\<lambda>k. map_option ((#) (take k s)) (match_here rs (drop k s))"
  from assms have "first_some ?f (rev [1 ..< Suc (length (takeWhile isspace s))]) = Some gs"
    by simp
  then obtain k where k: "k \<in> set (rev [1 ..< Suc (length (takeWhile isspace s))])"
    and m: "?f k = Some gs"
    using first_some_SomeD by fast
  from k have "1 \<le> k" "k \<le> length s"
    using length_takeWhile_le [of isspace s] by auto
  then have "take k s \<noteq> []" by auto
  with m show ?thesis by auto
qed

lemma match_here_prefix:
  "match_here p s = Some gs \<Longrightarrow> prefix (concat gs) s"
proof (induction p arbitrary: s gs)
  case Nil
  then show ?case by simp
next
  case (Cons r rs)
  show ?case
  proof (cases r)
    case Spaces
    let ?f = "\<lambda>k. map_option ((#) (take k s)) (match_here rs (drop k s))"
    from Cons.prems Spaces
    have "first_some ?f (rev [1 ..< Suc (length (takeWhile isspace s))]) = Some gs"
      by simp
    then obtain k where "?f k = Some gs"
      using first_some_SomeD by fast
    then obtain gs' where gs': "match_here rs (drop k s) = Some gs'" "gs = take k s # gs'"
      by auto
    from Cons.IH [OF gs'(1)] obtain t where "drop k s = concat gs' @ t"
      by (auto simp: prefix_def)
    then have "s = take k s @ concat gs' @ t"
      by (metis append_take_drop_id)
    with gs' show ?thesis by (auto simp: prefix_def)
  next
    case (Lit l)
    with Cons.prems obtain gs' where l: "prefix l s"
      and gs': "match_here rs (drop (length l) s) = Some gs'" "gs = l # gs'"
      by (auto split: if_splits)
    from Cons.IH [OF gs'(1)] obtain t where "drop (length l) s = concat gs' @ t"
      by (auto simp: prefix_def)
    moreover from l have "s = l @ drop (length l) s"
      by (auto simp: prefix_def)
    ultimately have "s = l @ concat gs' @ t" by simp
    with gs' show ?thesis by (auto simp: prefix_def)
  qed
qed

text \<open>
  \<open>re.search\<close> and \<open>re.sub\<close> by positions: a search succeeds iff there is a match at some
  position; a substitution copies the text up to the leftmost match, puts the replacement
  and goes on behind the match.
\<close>

lemma re_search_iff:
  "re_search p s \<longleftrightarrow> (\<exists>i \<le> length s. match_here p (drop i s) \<noteq> None)"
proof (induction s)
  case Nil
  then show ?case by simp
next
  case (Cons c cs)
  show ?case
  proof
    assume "re_search p (c # cs)"
    then consider "match_here p (c # cs) \<noteq> None" | "re_search p cs" by auto
    then show "\<exists>i \<le> length (c # cs). match_here p (drop i (c # cs)) \<noteq> None"
    proof cases
      case 1
      then show ?thesis by (intro exI [of _ 0]) simp
    next
      case 2
      with Cons obtain i where "i \<le> length cs" "match_here p (drop i cs) \<noteq> None" by blast
      then show ?thesis by (intro exI [of _ "Suc i"]) simp
    qed
  next
    assume "\<exists>i \<le> length (c # cs). match_here p (drop i (c # cs)) \<noteq> None"
    then obtain i where i: "i \<le> length (c # cs)" "match_here p (drop i (c # cs)) \<noteq> None"
      by blast
    show "re_search p (c # cs)"
    proof (cases i)
      case 0
      with i show ?thesis by simp
    next
      case (Suc j)
      with i Cons show ?thesis by auto
    qed
  qed
qed

lemma leftmost_match:
  assumes "re_search p s"
  shows "\<exists>i gs. i \<le> length s \<and> match_here p (drop i s) = Some gs
    \<and> (\<forall>j<i. match_here p (drop j s) = None)"
proof -
  let ?P = "\<lambda>i. i \<le> length s \<and> match_here p (drop i s) \<noteq> None"
  from assms have "\<exists>i. ?P i" by (simp add: re_search_iff)
  then obtain i where i: "?P i" and least: "\<forall>j<i. \<not> ?P j"
    using exists_least_iff [of ?P] by blast
  from i obtain gs where "match_here p (drop i s) = Some gs" by auto
  moreover have "match_here p (drop j s) = None" if "j < i" for j
    using least that i by auto
  ultimately show ?thesis using i by blast
qed

lemma re_sub_no_match: "\<not> re_search p s \<Longrightarrow> re_sub p repl s = s"
  by (induction s) (auto split: option.splits)

lemma re_sub_first:
  assumes "match_here p (drop i s) = Some gs" "concat gs \<noteq> []" "i \<le> length s"
    and "\<And>j. j < i \<Longrightarrow> match_here p (drop j s) = None"
  shows "re_sub p repl s =
    take i s @ repl gs @ re_sub p repl (drop (i + length (concat gs)) s)"
  using assms
proof (induction i arbitrary: s)
  case 0
  then show ?case
  proof (cases s)
    case Nil
    with 0 match_here_prefix [of p "[]" gs] show ?thesis by simp
  next
    case (Cons c cs)
    with 0 show ?thesis by (cases "length (concat gs)") auto
  qed
next
  case (Suc i)
  then obtain c cs where s: "s = c # cs" by (cases s) auto
  from Suc.prems(4) [of 0] s have none: "match_here p (c # cs) = None" by simp
  have "re_sub p repl cs = take i cs @ repl gs @ re_sub p repl (drop (i + length (concat gs)) cs)"
  proof (rule Suc.IH)
    show "match_here p (drop i cs) = Some gs" using Suc.prems(1) s by simp
    show "concat gs \<noteq> []" by fact
    show "i \<le> length cs" using Suc.prems(3) s by simp
    show "match_here p (drop j cs) = None" if "j < i" for j
      using Suc.prems(4) [of "Suc j"] that s by simp
  qed
  with none s show ?case by simp
qed

lemma re_sub_replaces:
  assumes "re_search (Spaces # rs) s"
  shows "\<exists>before gs after. re_sub (Spaces # rs) repl s = before @ repl gs @ after"
proof -
  from leftmost_match [OF assms] obtain i gs where i: "i \<le> length s"
    and m: "match_here (Spaces # rs) (drop i s) = Some gs"
    and least: "\<And>j. j < i \<Longrightarrow> match_here (Spaces # rs) (drop j s) = None"
    by blast
  from re_sub_first [OF m match_spaces_nonempty [OF m] i least]
  show ?thesis by blast
qed

lemma re_sub_twice:
  assumes "i \<le> length s" "match_here (Spaces # rs) (drop i s) = Some gs1"
    and "\<forall>k<i. match_here (Spaces # rs) (drop k s) = None"
    and "i + length (concat gs1) \<le> j" "j \<le> length s"
    and "match_here (Spaces # rs) (drop j s) = Some gs2"
    and "\<forall>k. i + length (concat gs1) \<le> k \<and> k < j \<longrightarrow>
      match_here (Spaces # rs) (drop k s) = None"
  shows "re_sub (Spaces # rs) repl s =
    take i s @ repl gs1
      @ take (j - (i + length (concat gs1))) (drop (i + length (concat gs1)) s) @ repl gs2
      @ re_sub (Spaces # rs) repl (drop (j + length (concat gs2)) s)"
proof -
  let ?p = "Spaces # rs"
  let ?e = "i + length (concat gs1)"
  let ?t = "drop ?e s"
  have "concat gs1 \<noteq> []"
    using assms(2) by (rule match_spaces_nonempty)
  with assms(2) have one: "re_sub ?p repl s = take i s @ repl gs1 @ re_sub ?p repl ?t"
    by (rule re_sub_first) (use assms(1,3) in blast)+
  have at: "drop (j - ?e) ?t = drop j s"
    using assms(4) by simp
  have "re_sub ?p repl ?t =
      take (j - ?e) ?t @ repl gs2 @ re_sub ?p repl (drop (j - ?e + length (concat gs2)) ?t)"
  proof (rule re_sub_first)
    show "match_here ?p (drop (j - ?e) ?t) = Some gs2"
      using assms(6) at by simp
    then show "concat gs2 \<noteq> []"
      by (rule match_spaces_nonempty)
    show "j - ?e \<le> length ?t"
      using assms(4,5) by simp
    show "match_here ?p (drop k ?t) = None" if "k < j - ?e" for k
    proof -
      have "?e \<le> k + ?e \<and> k + ?e < j" using that by simp
      with assms(7) have "match_here ?p (drop (k + ?e) s) = None" by blast
      then show ?thesis by (simp add: add.commute)
    qed
  qed
  moreover have "drop (j - ?e + length (concat gs2)) ?t = drop (j + length (concat gs2)) s"
    using assms(4) by simp
  ultimately show ?thesis using one by simp
qed

subsection \<open>The cases of \<open>add_session_consult\<close>\<close>

lemma backup_neq [simp]: "backup_of p \<noteq> p" "p \<noteq> backup_of p"
  by (simp_all add: backup_of_def)

lemma run_missing:
  assumes "files w (file_path_of agent_dir) = None"
  shows "add_session_consult mix agent_dir role w =
    (Inr False, w\<lparr>trace := trace w @ [Print (FileNotFound agent_dir)]\<rparr>)"
  using assms by (simp add: add_session_consult_def emit_def)

lemma run_marked:
  assumes "files w (file_path_of agent_dir) = Some content"
    and "py_in ''\"session_consult\"'' content"
  shows "add_session_consult mix agent_dir role w =
    (Inr True, w\<lparr>trace := trace w @ [Print (AlreadyHas agent_dir)]\<rparr>)"
  using assms by (simp add: add_session_consult_def emit_def)

lemma run_no_anchor:
  assumes "files w (file_path_of agent_dir) = Some content"
    and "\<not> py_in ''\"session_consult\"'' content"
    and "\<not> re_search tool_pattern content"
  shows "add_session_consult mix agent_dir role w =
    (Inr False,
     w\<lparr>files := (files w)(backup_of (file_path_of agent_dir) \<mapsto> content),
       trace := trace w @ [Write (backup_of (file_path_of agent_dir)) content,
         Print (NoToolsListEnd agent_dir)]\<rparr>)"
  using assms by (simp add: add_session_consult_def emit_def write_file_def Let_def)

lemma run_patched:
  fixes mix :: verifier and agent_dir role :: string and w :: world and content :: string
  assumes "files w (file_path_of agent_dir) = Some content"
    and "\<not> py_in ''\"session_consult\"'' content"
    and "re_search tool_pattern content"
  defines "fp \<equiv> file_path_of agent_dir"
  defines "new \<equiv> patch agent_dir role content"
  defines "fs \<equiv> (files w)(backup_of fp \<mapsto> content, fp \<mapsto> new)"
  defines "result \<equiv> mix (cwd_of agent_dir) fs"
  shows "add_session_consult mix agent_dir role w =
    (if compiled result
     then (Inr True,
       w\<lparr>files := fs(backup_of fp := None),
         trace := trace w @ [Write (backup_of fp) content, Write fp new,
           Run (cwd_of agent_dir), Print (Success agent_dir), Remove (backup_of fp)]\<rparr>)
     else (Inr False,
       w\<lparr>files := fs(fp \<mapsto> content),
         trace := trace w @ [Write (backup_of fp) content, Write fp new,
           Run (cwd_of agent_dir),
           Print (CompilationFailed agent_dir (take 200 (stderr result))),
           Write fp content]\<rparr>))"
  using assms(1-3) unfolding fp_def new_def fs_def result_def
  by (simp add: add_session_consult_def emit_def write_file_def remove_file_def Let_def)

lemma run_returns:
  "\<exists>b w'. add_session_consult mix agent_dir role w = (Inr b, w')"
proof (cases "files w (file_path_of agent_dir)")
  case None
  then show ?thesis by (auto simp: run_missing)
next
  case (Some content)
  show ?thesis
  proof (cases "py_in ''\"session_consult\"'' content")
    case True
    with Some show ?thesis by (auto simp: run_marked)
  next
    case unmarked: False
    show ?thesis
    proof (cases "re_search tool_pattern content")
      case True
      from run_patched [OF Some unmarked True, of mix role]
      show ?thesis by (cases "compiled (mix (cwd_of agent_dir)
        ((files w)(backup_of (file_path_of agent_dir) \<mapsto> content,
          file_path_of agent_dir \<mapsto> patch agent_dir role content)))") auto
    next
      case False
      from run_no_anchor [OF Some unmarked False, of mix role]
      show ?thesis by auto
    qed
  qed
qed

lemma run_frame:
  assumes "p \<noteq> file_path_of agent_dir" "p \<noteq> backup_of (file_path_of agent_dir)"
  shows "files (snd (add_session_consult mix agent_dir role w)) p = files w p"
proof (cases "files w (file_path_of agent_dir)")
  case None
  then show ?thesis by (simp add: run_missing)
next
  case (Some content)
  show ?thesis
  proof (cases "py_in ''\"session_consult\"'' content")
    case True
    with Some show ?thesis by (simp add: run_marked)
  next
    case unmarked: False
    show ?thesis
    proof (cases "re_search tool_pattern content")
      case True
      from run_patched [OF Some unmarked True, of mix role] assms
      show ?thesis by simp
    next
      case False
      from run_no_anchor [OF Some unmarked False, of mix role] assms
      show ?thesis by simp
    qed
  qed
qed

subsection \<open>The marker after a patch\<close>

lemma marker_in_template: \<open>sublist ''"session_consult"'' TOOL_DEF_TEMPLATE\<close>
proof -
  have \<open>TOOL_DEF_TEMPLATE = ''      },\<newline>      %{\<newline>        name: '' @ ''"session_consult"'' @
    drop 49 TOOL_DEF_TEMPLATE\<close>
    by (simp add: TOOL_DEF_TEMPLATE_def)
  then show ?thesis unfolding sublist_def by blast
qed

lemma marker_in_handler: \<open>sublist ''"session_consult"'' (handler_code agent_dir role)\<close>
proof -
  have \<open>handler_code agent_dir role = ''\<newline>  def execute_tool('' @ ''"session_consult"'' @
    drop 37 (handler_code agent_dir role)\<close>
    by (simp add: handler_code_def)
  then show ?thesis unfolding sublist_def by blast
qed

lemma marker_in_patch:
  assumes "re_search tool_pattern content"
  shows \<open>py_in ''"session_consult"'' (patch agent_dir role content)\<close>
proof -
  let ?marker = \<open>''"session_consult"''\<close>
  let ?c1 = "re_sub tool_pattern tool_repl content"
  let ?c2 = "re_sub catchall_pattern (handler_repl agent_dir role) ?c1"
  have c1: "sublist ?marker ?c1"
  proof -
    from assms obtain before gs after where "?c1 = before @ tool_repl gs @ after"
      using re_sub_replaces [of "tl tool_pattern" content tool_repl]
      by (auto simp: tool_pattern_def)
    moreover have "sublist ?marker (tool_repl gs)"
      unfolding tool_repl_def
      using sublist_trans_append [OF marker_in_template,
        of "concat (take 2 gs) @ '',''" "''\<newline>    '' @ concat (drop 3 gs)"]
      by simp
    ultimately show ?thesis
      using sublist_trans_append by metis
  qed
  have c2: "sublist ?marker ?c2"
  proof (cases "re_search catchall_pattern ?c1")
    case True
    then obtain before gs after
      where "?c2 = before @ handler_repl agent_dir role gs @ after"
      using re_sub_replaces [of "tl catchall_pattern" ?c1 "handler_repl agent_dir role"]
      by (auto simp: catchall_pattern_def)
    moreover have "sublist ?marker (handler_repl agent_dir role gs)"
      unfolding handler_repl_def
      using sublist_trans_append [OF marker_in_handler, of "[]" agent_dir role "concat gs"]
      by simp
    ultimately show ?thesis
      using sublist_trans_append by metis
  next
    case False
    with c1 show ?thesis by (simp add: re_sub_no_match)
  qed
  have "sublist (''\"session_consult'' @ [CHR 0x22]) (rstrip ?c2)"
    using c2 by (intro sublist_rstrip) (simp_all add: isspace_def)
  then have "sublist ?marker (rstrip ?c2)" by simp
  then have "sublist ?marker (patch agent_dir role content)"
    unfolding patch_def Let_def
    using sublist_trans_append [of ?marker "rstrip ?c2" "[]"] by simp
  then show ?thesis by (simp add: py_in_sublist)
qed

subsection \<open>Running the function again\<close>

lemma marked_after_success:
  assumes "add_session_consult mix agent_dir role w = (Inr True, w1)"
  shows "\<exists>text. files w1 (file_path_of agent_dir) = Some text
      \<and> py_in ''\"session_consult\"'' text"
proof (cases "files w (file_path_of agent_dir)")
  case None
  with assms show ?thesis by (simp add: run_missing)
next
  case (Some content)
  show ?thesis
  proof (cases "py_in ''\"session_consult\"'' content")
    case True
    with Some assms show ?thesis by (auto simp: run_marked)
  next
    case unmarked: False
    show ?thesis
    proof (cases "re_search tool_pattern content")
      case True
      from run_patched [OF Some unmarked True, of mix role] assms
        marker_in_patch [OF True, of agent_dir role]
      show ?thesis by (auto split: if_splits)
    next
      case False
      from run_no_anchor [OF Some unmarked False, of mix role] assms
      show ?thesis by simp
    qed
  qed
qed

lemma rerun_after_failure:
  assumes "add_session_consult mix agent_dir role w = (Inr False, w1)"
  shows "fst (add_session_consult mix agent_dir role w1) = Inr False
    \<and> files (snd (add_session_consult mix agent_dir role w1)) = files w1"
proof (cases "files w (file_path_of agent_dir)")
  case None
  with assms have "w1 = w\<lparr>trace := trace w @ [Print (FileNotFound agent_dir)]\<rparr>"
    by (simp add: run_missing)
  with None show ?thesis by (simp add: run_missing)
next
  case (Some content)
  let ?fp = "file_path_of agent_dir"
  show ?thesis
  proof (cases "py_in ''\"session_consult\"'' content")
    case True
    with Some assms show ?thesis by (simp add: run_marked)
  next
    case unmarked: False
    show ?thesis
    proof (cases "re_search tool_pattern content")
      case False
      from run_no_anchor [OF Some unmarked False, of mix role] assms
      have w1: "files w1 = (files w)(backup_of ?fp \<mapsto> content)" by auto
      with Some have "files w1 ?fp = Some content" by simp
      from run_no_anchor [OF this unmarked False, of mix role] w1
      show ?thesis by simp
    next
      case True
      let ?fs = "(files w)(backup_of ?fp \<mapsto> content, ?fp \<mapsto> patch agent_dir role content)"
      from run_patched [OF Some unmarked True, of mix role] assms
      have failed: "\<not> compiled (mix (cwd_of agent_dir) ?fs)"
        and w1: "files w1 = ?fs(?fp \<mapsto> content)"
        by (auto split: if_splits)
      from w1 have again: "files w1 ?fp = Some content" by simp
      have same: "(files w1)(backup_of ?fp \<mapsto> content, ?fp \<mapsto> patch agent_dir role content) = ?fs"
        unfolding w1 by (rule ext) simp
      from run_patched [OF again unmarked True, of mix role] failed
      show ?thesis unfolding same by (simp add: w1)
    qed
  qed
qed

subsection \<open>The loop of \<open>main\<close>\<close>

lemma processed_append: "processed (es @ es') = processed es @ processed es'"
  by (induction es rule: processed.induct) simp_all

lemma run_trace:
  "\<exists>es. trace (snd (add_session_consult mix agent_dir role w)) = trace w @ es
     \<and> processed es = []"
proof (cases "files w (file_path_of agent_dir)")
  case None
  then show ?thesis by (simp add: run_missing)
next
  case (Some content)
  show ?thesis
  proof (cases "py_in ''\"session_consult\"'' content")
    case True
    with Some show ?thesis by (simp add: run_marked)
  next
    case unmarked: False
    show ?thesis
    proof (cases "re_search tool_pattern content")
      case True
      from run_patched [OF Some unmarked True, of mix role]
      show ?thesis by simp
    next
      case False
      from run_no_anchor [OF Some unmarked False, of mix role]
      show ?thesis by simp
    qed
  qed
qed

lemma main_loop_outcomes:
  "\<exists>w'. main_loop mix agents n w = (Inr (n + length (filter id (outcomes mix agents w))), w')
     \<and> length (outcomes mix agents w) = length agents
     \<and> processed (trace w') = processed (trace w) @ agents"
proof (induction agents arbitrary: n w)
  case Nil
  show ?case by simp
next
  case (Cons target rest)
  obtain agent_dir role where target: "target = (agent_dir, role)"
    by (cases target)
  let ?w = "emit (Print (Processing agent_dir role)) w"
  obtain ok w1 where run: "add_session_consult mix agent_dir role ?w = (Inr ok, w1)"
    using run_returns by blast
  from run_trace [of mix agent_dir role ?w] run
  obtain es where es: "trace w1 = trace ?w @ es" "processed es = []"
    by auto
  let ?n = "if ok then n + 1 else n"
  from Cons.IH [of ?n "emit (Print Blank) w1"]
  obtain w' where
    loop: "main_loop mix rest ?n (emit (Print Blank) w1) =
      (Inr (?n + length (filter id (outcomes mix rest (emit (Print Blank) w1)))), w')"
    and len: "length (outcomes mix rest (emit (Print Blank) w1)) = length rest"
    and tr: "processed (trace w') = processed (trace (emit (Print Blank) w1)) @ rest"
    by blast
  have "processed (trace (emit (Print Blank) w1)) = processed (trace w) @ [(agent_dir, role)]"
    using es by (simp add: emit_def processed_append)
  with tr have "processed (trace w') = processed (trace w) @ target # rest"
    using target by simp
  moreover have "main_loop mix (target # rest) n w =
      (Inr (n + length (filter id (outcomes mix (target # rest) w))), w')"
    using target run loop by simp
  moreover have "length (outcomes mix (target # rest) w) = length (target # rest)"
    using target run len by simp
  ultimately show ?case by blast
qed

subsection \<open>Facts about the sample inputs\<close>

lemma isspace_simps [simp]:
  "isspace CHR '' ''" "isspace CHR ''\<newline>''"
  "\<not> isspace CHR ''}''" "\<not> isspace CHR '']''" "\<not> isspace CHR ''e''" "\<not> isspace CHR ''@''"
  "\<not> isspace CHR ''d''"
  by (simp_all add: isspace_def)

lemma generated_compiled [simp]: "compiled (mix_generated cwd fs)"
  by (simp add: compiled_def mix_generated_def)

lemma silent_not_compiled [simp]: "\<not> compiled (mix_silent cwd fs)"
  by (simp add: compiled_def mix_silent_def)

lemma cto_paths [simp]:
  "file_path_of ''cto'' = ''apps/cto/lib/cto.ex''"
  "backup_of ''apps/cto/lib/cto.ex'' = ''apps/cto/lib/cto.ex.backup''"
  by (simp_all add: file_path_of_def backup_of_def)

lemma sample_file: "files sample_world (file_path_of ''cto'') = Some sample_module"
  by (simp add: sample_world_def file_path_of_def)

lemma sample_unmarked: \<open>\<not> py_in ''"session_consult"'' sample_module\<close>
  by code_simp

lemma sample_anchor: "re_search tool_pattern sample_module"
  by code_simp

lemma sample_verdict:
  assumes "files w (file_path_of agent_dir) = Some sample_module"
  shows "fst (add_session_consult mix agent_dir role w) =
    Inr (compiled (mix (cwd_of agent_dir)
      ((files w)(backup_of (file_path_of agent_dir) \<mapsto> sample_module,
         file_path_of agent_dir \<mapsto> patch agent_dir role sample_module))))"
  using run_patched [OF assms sample_unmarked sample_anchor, of mix role] by simp

lemma listless_file: "files listless_world (file_path_of ''cto'') = Some module_without_list"
  by (simp add: listless_world_def file_path_of_def)

lemma listless_unmarked: \<open>\<not> py_in ''"session_consult"'' module_without_list\<close>
  by code_simp

lemma listless_no_anchor: "\<not> re_search tool_pattern module_without_list"
  by code_simp

lemma headless_file: "files headless_world (file_path_of ''cto'') = Some module_without_catchall"
  by (simp add: headless_world_def file_path_of_def)

lemma headless_unmarked: \<open>\<not> py_in ''"session_consult"'' module_without_catchall\<close>
  by code_simp

lemma headless_anchor: "re_search tool_pattern module_without_catchall"
  by code_simp

lemma headless_no_catchall:
  "\<not> re_search catchall_pattern module_without_catchall"
  by code_simp

lemma two_lists_file: "files two_lists_world (file_path_of ''cto'') = Some module_two_lists"
  by (simp add: two_lists_world_def file_path_of_def)

lemma two_lists_unmarked: \<open>\<not> py_in ''"session_consult"'' module_two_lists\<close>
  by code_simp

lemma two_lists_anchor: "re_search tool_pattern module_two_lists"
  by code_simp

lemma two_lists_first:
  "match_here tool_pattern (drop 48 module_two_lists) =
     Some [''\<newline>      '', ''}'', ''\<newline>    '', '']'', ''\<newline>  '', ''end'', ''\<newline>  '',
       ''@impl true'', ''\<newline>  '', ''def execute_tool'']"
  by code_simp

lemma two_lists_second:
  "match_here tool_pattern (drop 132 module_two_lists) =
     Some [''\<newline>      '', ''}'', ''\<newline>    '', '']'', ''\<newline>  '', ''end'', ''\<newline>  '',
       ''@impl true'', ''\<newline>  '', ''def execute_tool'']"
  by code_simp

lemma two_lists_before:
  "list_all (\<lambda>k. match_here tool_pattern (drop k module_two_lists) = None) [0 ..< 48]"
  by code_simp

lemma two_lists_between:
  "list_all (\<lambda>k. match_here tool_pattern (drop k module_two_lists) = None) [100 ..< 132]"
  by code_simp

lemma two_lists_patched_twice:
  \<open>re_sub tool_pattern tool_repl module_two_lists = concat
    [''defmodule Cto do\<newline>'',
     ''  def tools do\<newline>'',
     ''    [%{name: "a"\<newline>'',
     ''      },'', TOOL_DEF_TEMPLATE, ''\<newline>'',
     ''    ]\<newline>'',
     ''  end\<newline>'',
     ''  @impl true\<newline>'',
     ''  def execute_tool("a", _args) do\<newline>'',
     ''    [%{name: "b"\<newline>'',
     ''      },'', TOOL_DEF_TEMPLATE, ''\<newline>'',
     ''    ]\<newline>'',
     ''  end\<newline>'',
     ''  @impl true\<newline>'',
     ''  def execute_tool(name, _args) do\<newline>'',
     ''    :none\<newline>'',
     ''  end\<newline>'',
     ''end\<newline>'']\<close>
  by code_simp

lemma three_outcomes:
  "outcomes mix_chro_broken three_agents
     (emit (Print Blank) (emit (Print Rule) (emit (Print Title) (emit (Print Rule) three_world))))
   = [True, False, True]"
  by (simp add: three_agents_def prod.case_eq_if sum.case_eq_if sample_verdict run_frame
      emit_def three_world_def file_path_of_def backup_of_def cwd_of_def
      mix_chro_broken_def compiled_def)

section \<open>The claims\<close>

text \<open>
  Claim C10. When the file of a target does not exist, \<open>add_session_consult\<close> returns
  \<open>False\<close>: the files are as before and the only event is the printed line, so no backup is
  created, nothing is written and the build command is not run. The loop of \<open>main\<close> goes on
  with the next target, the counter of successes unchanged.
\<close>

theorem missing_file_fails_quietly:
  assumes "files w (file_path_of agent_dir) = None"
  shows "add_session_consult mix agent_dir role w =
      (Inr False, w\<lparr>trace := trace w @ [Print (FileNotFound agent_dir)]\<rparr>)
    \<and> main_loop mix ((agent_dir, role) # rest) n w =
      main_loop mix rest n
        (w\<lparr>trace := trace w @ [Print (Processing agent_dir role),
           Print (FileNotFound agent_dir), Print Blank]\<rparr>)"
proof -
  have "files (emit (Print (Processing agent_dir role)) w) (file_path_of agent_dir) = None"
    using assms by (simp add: emit_def)
  then show ?thesis
    using assms by (simp add: run_missing emit_def)
qed

theorem missing_file_fails_quietly_witness:
  "files empty_world (file_path_of ''cto'') = None
   \<and> add_session_consult mix_generated ''cto'' ''cto'' empty_world =
       (Inr False, \<lparr>files = Map.empty, trace = [Print (FileNotFound ''cto'')]\<rparr>)
   \<and> main_loop mix_generated [(''cto'', ''cto''), (''chro'', ''chro'')] 0 empty_world =
       (Inr 0, \<lparr>files = Map.empty, trace =
          [Print (Processing ''cto'' ''cto''), Print (FileNotFound ''cto''), Print Blank,
           Print (Processing ''chro'' ''chro''), Print (FileNotFound ''chro''), Print Blank]\<rparr>)"
proof -
  have h: "files empty_world (file_path_of ''cto'') = None"
    by (simp add: empty_world_def)
  let ?w = "empty_world\<lparr>trace := trace empty_world @ [Print (Processing ''cto'' ''cto''),
           Print (FileNotFound ''cto''), Print Blank]\<rparr>"
  have h': "files ?w (file_path_of ''chro'') = None"
    by (simp add: empty_world_def)
  show ?thesis
    using h missing_file_fails_quietly [OF h, of mix_generated "''cto''" "[(''chro'', ''chro'')]" 0]
      missing_file_fails_quietly [OF h', of mix_generated "''chro''" "[]" 0]
    by (simp add: empty_world_def)
qed

text \<open>
  Claim C5. In a run that reaches the build command (the file exists, has no marker and
  has the list-end anchor), the function returns \<open>True\<close> if and only if the command exits
  with code 0 and \<open>Generated\<close> occurs in its standard output; with exit code 0 and no such
  occurrence it returns \<open>False\<close>.
\<close>

theorem verdict_needs_exit_code_and_evidence:
  assumes "files w (file_path_of agent_dir) = Some content"
    and \<open>\<not> py_in ''"session_consult"'' content\<close>
    and "re_search tool_pattern content"
  shows "let fp = file_path_of agent_dir;
             result = mix (cwd_of agent_dir)
               ((files w)(backup_of fp \<mapsto> content, fp \<mapsto> patch agent_dir role content));
             evidence = (\<exists>pre post. stdout result = pre @ ''Generated'' @ post);
             outcome = fst (add_session_consult mix agent_dir role w)
         in (outcome = Inr True \<longleftrightarrow> returncode result = 0 \<and> evidence)
          \<and> (outcome = Inr False \<longleftrightarrow> \<not> (returncode result = 0 \<and> evidence))
          \<and> (returncode result = 0 \<and> \<not> evidence \<longrightarrow> outcome = Inr False)"
  using run_patched [OF assms, of mix role]
  by (simp add: Let_def compiled_def py_in_sublist sublist_def)

theorem verdict_needs_exit_code_and_evidence_witness:
  \<open>files sample_world (file_path_of ''cto'') = Some sample_module
   \<and> \<not> py_in ''"session_consult"'' sample_module
   \<and> re_search tool_pattern sample_module
   \<and> fst (add_session_consult mix_silent ''cto'' ''cto'' sample_world) = Inr False
   \<and> fst (add_session_consult mix_generated ''cto'' ''cto'' sample_world) = Inr True\<close>
proof -
  have "''Generated cto app'' = [] @ ''Generated'' @ '' cto app''"
    by simp
  then have "\<exists>pre post. ''Generated cto app'' = pre @ ''Generated'' @ post"
    by blast
  then show ?thesis
    using verdict_needs_exit_code_and_evidence
        [OF sample_file sample_unmarked sample_anchor, of mix_silent "''cto''"]
      verdict_needs_exit_code_and_evidence
        [OF sample_file sample_unmarked sample_anchor, of mix_generated "''cto''"]
      sample_file sample_unmarked sample_anchor
    by (simp add: Let_def mix_silent_def mix_generated_def)
qed



text \<open>
  Claim C2 says that no backup file exists after a run, whatever its end. It fails on a
  run whose verification fails: the file is written back from the backup, and the backup
  stays on disk.
\<close>

theorem backup_survives_failed_verification:
  "fst (add_session_consult mix_silent ''cto'' ''cto'' sample_world) = Inr False
   \<and> files (snd (add_session_consult mix_silent ''cto'' ''cto'' sample_world))
       ''apps/cto/lib/cto.ex.backup'' = Some sample_module"
  using run_patched [OF sample_file sample_unmarked sample_anchor, of mix_silent "''cto''"]
  by simp

text \<open>
  Claim C2, amended. The backup is removed only on success. A run that finds no file or
  finds the marker leaves the files as they were (no backup is created); a run that patches
  and verifies ends with no backup file; a run that fails after the marker check (no
  list-end anchor, or failed verification) leaves a backup file holding the original text.
\<close>

theorem backup_removed_only_on_success:
  "let (r, w') = add_session_consult mix agent_dir role w;
       backup = backup_of (file_path_of agent_dir)
   in case files w (file_path_of agent_dir) of
        None \<Rightarrow> r = Inr False \<and> files w' = files w
      | Some content \<Rightarrow>
          if py_in ''\"session_consult\"'' content then r = Inr True \<and> files w' = files w
          else if r = Inr True then files w' backup = None
          else r = Inr False \<and> files w' backup = Some content"
proof (cases "files w (file_path_of agent_dir)")
  case None
  then show ?thesis by (simp add: run_missing)
next
  case (Some content)
  show ?thesis
  proof (cases "py_in ''\"session_consult\"'' content")
    case True
    with Some show ?thesis by (simp add: run_marked)
  next
    case unmarked: False
    show ?thesis
    proof (cases "re_search tool_pattern content")
      case True
      from run_patched [OF Some unmarked True, of mix role] Some unmarked
      show ?thesis by simp
    next
      case False
      from run_no_anchor [OF Some unmarked False, of mix role] Some unmarked
      show ?thesis by simp
    qed
  qed
qed

theorem backup_removed_only_on_success_witness:
  "files (snd (add_session_consult mix_generated ''cto'' ''cto'' sample_world))
       (backup_of (file_path_of ''cto'')) = None
   \<and> fst (add_session_consult mix_generated ''cto'' ''cto'' sample_world) = Inr True
   \<and> files (snd (add_session_consult mix_silent ''cto'' ''cto'' sample_world))
       (backup_of (file_path_of ''cto'')) = Some sample_module
   \<and> fst (add_session_consult mix_silent ''cto'' ''cto'' sample_world) = Inr False"
proof -
  have ok: "fst (add_session_consult mix_generated ''cto'' ''cto'' sample_world) = Inr True"
    using run_patched [OF sample_file sample_unmarked sample_anchor, of mix_generated "''cto''"]
    by simp
  have ko: "fst (add_session_consult mix_silent ''cto'' ''cto'' sample_world) \<noteq> Inr True"
    using run_patched [OF sample_file sample_unmarked sample_anchor, of mix_silent "''cto''"]
    by simp
  show ?thesis
    using backup_removed_only_on_success [of mix_generated "''cto''" "''cto''" sample_world]
      backup_removed_only_on_success [of mix_silent "''cto''" "''cto''" sample_world]
      sample_file sample_unmarked ok ko
    by (simp add: split_beta del: cto_paths)
qed

text \<open>
  Claim C8 says that no backup is created when the list-end anchor is not found. The
  backup is written before the anchor is looked for, and it is still there after the run.
\<close>

theorem backup_created_before_anchor_check:
  "fst (add_session_consult mix_generated ''cto'' ''cto'' listless_world) = Inr False
   \<and> \<not> re_search tool_pattern module_without_list
   \<and> files (snd (add_session_consult mix_generated ''cto'' ''cto'' listless_world))
       ''apps/cto/lib/cto.ex.backup'' = Some module_without_list"
  using run_no_anchor [OF listless_file listless_unmarked listless_no_anchor, of mix_generated "''cto''"]
    listless_no_anchor
  by simp

text \<open>
  Claim C8, amended. When the text of the file does not match the list-end pattern, the
  function returns \<open>False\<close> and the target file is untouched (no write to it), but a backup
  holding the original text has been created and remains on disk.
\<close>

theorem missing_list_end_fails_with_backup:
  assumes "files w (file_path_of agent_dir) = Some content"
    and \<open>\<not> py_in ''"session_consult"'' content\<close>
    and "\<not> re_search tool_pattern content"
  shows "\<exists>w'. add_session_consult mix agent_dir role w = (Inr False, w')
    \<and> files w' (file_path_of agent_dir) = Some content
    \<and> files w' (backup_of (file_path_of agent_dir)) = Some content
    \<and> trace w' = trace w @
        [Write (backup_of (file_path_of agent_dir)) content, Print (NoToolsListEnd agent_dir)]"
  using run_no_anchor [OF assms, of mix role] assms(1) by simp

theorem missing_list_end_fails_with_backup_witness:
  \<open>files listless_world (file_path_of ''cto'') = Some module_without_list
   \<and> \<not> py_in ''"session_consult"'' module_without_list
   \<and> \<not> re_search tool_pattern module_without_list
   \<and> fst (add_session_consult mix_generated ''cto'' ''cto'' listless_world) = Inr False
   \<and> files (snd (add_session_consult mix_generated ''cto'' ''cto'' listless_world))
       (file_path_of ''cto'') = Some module_without_list
   \<and> trace (snd (add_session_consult mix_generated ''cto'' ''cto'' listless_world)) =
       [Write (backup_of (file_path_of ''cto'')) module_without_list,
        Print (NoToolsListEnd ''cto'')]\<close>
proof -
  from missing_list_end_fails_with_backup
    [where mix = mix_generated and role = "''cto''",
     OF listless_file listless_unmarked listless_no_anchor]
  show ?thesis
    using listless_file listless_unmarked listless_no_anchor
    by (auto simp: listless_world_def simp del: cto_paths)
qed

text \<open>
  Claim C4 says that a file without the catch-all handler declaration makes the run fail
  with the file untouched. The script checks the list-end anchor only: on this module, whose
  fallback clause is written \<open>def execute_tool(other, _args) do\<close>, the substitution of
  step 2 finds nothing to replace, the patched text is written all the same and, the
  build reporting success, the function returns \<open>True\<close>.
\<close>

theorem missing_catchall_is_not_detected:
  "\<not> re_search catchall_pattern module_without_catchall
   \<and> fst (add_session_consult mix_generated ''cto'' ''cto'' headless_world) = Inr True
   \<and> files (snd (add_session_consult mix_generated ''cto'' ''cto'' headless_world))
       ''apps/cto/lib/cto.ex'' = Some (patch ''cto'' ''cto'' module_without_catchall)
   \<and> trace (snd (add_session_consult mix_generated ''cto'' ''cto'' headless_world)) =
       [Write ''apps/cto/lib/cto.ex.backup'' module_without_catchall,
        Write ''apps/cto/lib/cto.ex'' (patch ''cto'' ''cto'' module_without_catchall),
        Run ''apps/cto'', Print (Success ''cto''), Remove ''apps/cto/lib/cto.ex.backup'']"
  using run_patched [OF headless_file headless_unmarked headless_anchor, of mix_generated "''cto''"]
    headless_no_catchall
  by (simp add: headless_world_def cwd_of_def)



text \<open>
  Claim C7. A second run on the result of a first run returns what the first returned and
  leaves every file as the first run left it. After a first run that returned \<open>True\<close> the
  marker is in the file, so the second run, whatever the build command would answer, only
  prints that the agent already has the tool: no backup is created and nothing is written.
\<close>

theorem pipeline_idempotent:
  assumes "add_session_consult mix agent_dir role w = (r1, w1)"
  shows "fst (add_session_consult mix agent_dir role w1) = r1
    \<and> files (snd (add_session_consult mix agent_dir role w1)) = files w1
    \<and> (r1 = Inr True \<longrightarrow>
         add_session_consult mix' agent_dir role w1 =
           (Inr True, w1\<lparr>trace := trace w1 @ [Print (AlreadyHas agent_dir)]\<rparr>))"
proof -
  from run_returns [of mix agent_dir role w] assms
  consider "r1 = Inr True" | "r1 = Inr False" by auto
  then show ?thesis
  proof cases
    case 1
    with assms marked_after_success [of mix agent_dir role w w1]
    show ?thesis by (auto simp: run_marked)
  next
    case 2
    with assms rerun_after_failure [of mix agent_dir role w w1]
    show ?thesis by simp
  qed
qed

theorem pipeline_idempotent_witness:
  "fst (add_session_consult mix_generated ''cto'' ''cto'' sample_world) = Inr True
   \<and> fst (add_session_consult mix_generated ''cto'' ''cto''
       (snd (add_session_consult mix_generated ''cto'' ''cto'' sample_world))) = Inr True
   \<and> files (snd (add_session_consult mix_generated ''cto'' ''cto''
       (snd (add_session_consult mix_generated ''cto'' ''cto'' sample_world)))) =
     files (snd (add_session_consult mix_generated ''cto'' ''cto'' sample_world))
   \<and> add_session_consult mix_silent ''cto'' ''cto''
       (snd (add_session_consult mix_generated ''cto'' ''cto'' sample_world)) =
     (Inr True,
      (snd (add_session_consult mix_generated ''cto'' ''cto'' sample_world))
        \<lparr>trace := trace (snd (add_session_consult mix_generated ''cto'' ''cto'' sample_world))
           @ [Print (AlreadyHas ''cto'')]\<rparr>)"
proof -
  let ?first = "add_session_consult mix_generated ''cto'' ''cto'' sample_world"
  have ok: "fst ?first = Inr True"
    using run_patched [OF sample_file sample_unmarked sample_anchor, of mix_generated "''cto''"]
    by simp
  then have "?first = (Inr True, snd ?first)"
    by (simp add: prod_eq_iff)
  from pipeline_idempotent [OF this, of mix_silent] ok
  show ?thesis by blast
qed



text \<open>
  Claim C3 says that a text in which the list-end pattern occurs more than once makes the
  run fail, nothing being inserted. In this module the pattern matches at the positions
  48 and 132; the run returns \<open>True\<close> and the text written has the tool definition after
  both lists.
\<close>

theorem both_list_ends_are_patched:
  "match_here tool_pattern (drop 48 module_two_lists) \<noteq> None
   \<and> match_here tool_pattern (drop 132 module_two_lists) \<noteq> None
   \<and> fst (add_session_consult mix_generated ''cto'' ''cto'' two_lists_world) = Inr True
   \<and> files (snd (add_session_consult mix_generated ''cto'' ''cto'' two_lists_world))
       ''apps/cto/lib/cto.ex'' = Some (patch ''cto'' ''cto'' module_two_lists)
   \<and> patch ''cto'' ''cto'' module_two_lists =
       rstrip (re_sub catchall_pattern (handler_repl ''cto'' ''cto'')
         (re_sub tool_pattern tool_repl module_two_lists))
       @ helper_code ''cto'' ''cto'' @ ''\<newline>end\<newline>''
   \<and> re_sub tool_pattern tool_repl module_two_lists = concat
       [''defmodule Cto do\<newline>'',
        ''  def tools do\<newline>'',
        ''    [%{name: \"a\"\<newline>'',
        ''      },'', TOOL_DEF_TEMPLATE, ''\<newline>'',
        ''    ]\<newline>'',
        ''  end\<newline>'',
        ''  @impl true\<newline>'',
        ''  def execute_tool(\"a\", _args) do\<newline>'',
        ''    [%{name: \"b\"\<newline>'',
        ''      },'', TOOL_DEF_TEMPLATE, ''\<newline>'',
        ''    ]\<newline>'',
        ''  end\<newline>'',
        ''  @impl true\<newline>'',
        ''  def execute_tool(name, _args) do\<newline>'',
        ''    :none\<newline>'',
        ''  end\<newline>'',
        ''end\<newline>'']"
  using run_patched [OF two_lists_file two_lists_unmarked two_lists_anchor, of mix_generated "''cto''"]
    two_lists_first two_lists_second two_lists_patched_twice
  by (simp add: patch_def Let_def)

text \<open>
  Claim C3, amended. The script does not detect that the list-end pattern occurs more
  than once. When the leftmost match is at \<open>i\<close> and the next one after it at \<open>j\<close>, the
  substitution of step 1 replaces both (and goes on in the rest of the text), the patched
  text is written, and the function returns the verdict of the build command.
\<close>

theorem ambiguity_is_not_detected:
  assumes "files w (file_path_of agent_dir) = Some content"
    and \<open>\<not> py_in ''"session_consult"'' content\<close>
    and "i \<le> length content" "match_here tool_pattern (drop i content) = Some gs1"
    and "\<forall>k<i. match_here tool_pattern (drop k content) = None"
    and "i + length (concat gs1) \<le> j" "j \<le> length content"
    and "match_here tool_pattern (drop j content) = Some gs2"
    and "\<forall>k. i + length (concat gs1) \<le> k \<and> k < j \<longrightarrow>
      match_here tool_pattern (drop k content) = None"
  shows "let fp = file_path_of agent_dir;
             result = mix (cwd_of agent_dir)
               ((files w)(backup_of fp \<mapsto> content, fp \<mapsto> patch agent_dir role content));
             run = add_session_consult mix agent_dir role w;
             e1 = i + length (concat gs1);
             e2 = j + length (concat gs2)
         in fst run = Inr (compiled result)
          \<and> Write fp (patch agent_dir role content) \<in> set (trace (snd run))
          \<and> patch agent_dir role content =
              rstrip (re_sub catchall_pattern (handler_repl agent_dir role)
                (re_sub tool_pattern tool_repl content))
              @ helper_code agent_dir role @ ''\<newline>end\<newline>''
          \<and> re_sub tool_pattern tool_repl content =
              take i content @ tool_repl gs1
              @ take (j - e1) (drop e1 content) @ tool_repl gs2
              @ re_sub tool_pattern tool_repl (drop e2 content)"
proof -
  have found: "re_search tool_pattern content"
    using assms(3,4) by (auto simp: re_search_iff)
  have "re_sub tool_pattern tool_repl content =
      take i content @ tool_repl gs1
      @ take (j - (i + length (concat gs1))) (drop (i + length (concat gs1)) content)
      @ tool_repl gs2
      @ re_sub tool_pattern tool_repl (drop (j + length (concat gs2)) content)"
    using assms(3-9) unfolding tool_pattern_def by (rule re_sub_twice)
  then show ?thesis
    using run_patched [OF assms(1,2) found, of mix role]
    by (simp add: Let_def patch_def)
qed

theorem ambiguity_is_not_detected_witness:
  "list_all (\<lambda>k. match_here tool_pattern (drop k module_two_lists) = None) [0 ..< 48]
   \<and> match_here tool_pattern (drop 48 module_two_lists) =
       Some [''\<newline>      '', ''}'', ''\<newline>    '', '']'', ''\<newline>  '', ''end'', ''\<newline>  '',
         ''@impl true'', ''\<newline>  '', ''def execute_tool'']
   \<and> list_all (\<lambda>k. match_here tool_pattern (drop k module_two_lists) = None) [100 ..< 132]
   \<and> match_here tool_pattern (drop 132 module_two_lists) =
       Some [''\<newline>      '', ''}'', ''\<newline>    '', '']'', ''\<newline>  '', ''end'', ''\<newline>  '',
         ''@impl true'', ''\<newline>  '', ''def execute_tool'']
   \<and> fst (add_session_consult mix_generated ''cto'' ''cto'' two_lists_world) = Inr True
   \<and> re_sub tool_pattern tool_repl module_two_lists =
       take 48 module_two_lists
       @ tool_repl [''\<newline>      '', ''}'', ''\<newline>    '', '']'', ''\<newline>  '', ''end'', ''\<newline>  '',
           ''@impl true'', ''\<newline>  '', ''def execute_tool'']
       @ take 32 (drop 100 module_two_lists)
       @ tool_repl [''\<newline>      '', ''}'', ''\<newline>    '', '']'', ''\<newline>  '', ''end'', ''\<newline>  '',
           ''@impl true'', ''\<newline>  '', ''def execute_tool'']
       @ re_sub tool_pattern tool_repl (drop 184 module_two_lists)"
proof -
  let ?gs = "[''\<newline>      '', ''}'', ''\<newline>    '', '']'', ''\<newline>  '', ''end'', ''\<newline>  '',
    ''@impl true'', ''\<newline>  '', ''def execute_tool'']"
  have len: "length module_two_lists = 221"
    by (simp add: module_two_lists_def)
  have before: "\<forall>k<48. match_here tool_pattern (drop k module_two_lists) = None"
    using two_lists_before unfolding list_all_iff
    by (simp only: set_upt atLeastLessThan_iff Ball_def) blast
  have "\<forall>k. 100 \<le> k \<and> k < 132 \<longrightarrow>
      match_here tool_pattern (drop k module_two_lists) = None"
    using two_lists_between unfolding list_all_iff
    by (simp only: set_upt atLeastLessThan_iff Ball_def)
  moreover have "48 + length (concat ?gs) = 100"
    by simp
  ultimately have between: "\<forall>k. 48 + length (concat ?gs) \<le> k \<and> k < 132 \<longrightarrow>
      match_here tool_pattern (drop k module_two_lists) = None"
    by (simp only:)
  from ambiguity_is_not_detected
    [where mix = mix_generated and role = "''cto''" and i = 48 and j = 132,
     OF two_lists_file two_lists_unmarked _ two_lists_first before _ _ two_lists_second between]
  show ?thesis
    using two_lists_before two_lists_between two_lists_first two_lists_second
    by (simp add: Let_def len)
qed

end
